theory Spec2Isabelle
  imports Main "HOL-Library.Char_ord"
begin

section \<open>Constants of the solver\<close>

text \<open>
  The solver works on one-character strings. A digit is a \<^typ>\<open>char\<close>, a string of
  digits a \<^typ>\<open>string\<close>. \<open>ALL_digits\<close> is the source's list \<open>ALL\<close> of the nine
  digits (\<open>ALL\<close> is a reserved word of the logic), \<open>ACROSS\<close> labels the columns
  and \<open>DOWN\<close> the rows.
\<close>

definition BLACK :: char where
  "BLACK = CHR ''#''"

definition UNKNOWN :: "char list" where
  "UNKNOWN = [CHR ''.'', CHR '' '', CHR ''*'']"

definition ALL_digits :: "char list" where
  "ALL_digits = ''123456789''"

definition BLACK_ALL :: "char list" where
  "BLACK_ALL = ''abcdefghi''"

definition ACROSS :: "char list" where
  "ACROSS = ''123456789''"

definition DOWN :: "char list" where
  "DOWN = ''ABCDEFGHI''"

text \<open>
  Exceptions of the program and of the Python runtime that the modelled code can raise.
  \<open>InvalidSolution x y d\<close> carries the column label, the row label and the value.
\<close>

datatype error =
    InvalidSolution char char char
  | AssertionError
  | UnboundLocalError
  | NameError
  | ValueError
  | TypeError
  | IndexError
  | KeyError

section \<open>Cell\<close>

record cell =
  black :: bool
  given :: bool
  digits :: "char list"
  removed :: "char set"
  sure_candidates_by_row :: "char set"
  sure_candidates_by_col :: "char set"
  known :: bool

text \<open>The state of a cell at the start of \<open>Cell.__init__\<close>.\<close>

definition cell0 :: cell where
  "cell0 = \<lparr> black = False, given = False, digits = [], removed = {},
             sure_candidates_by_row = {}, sure_candidates_by_col = {}, known = False \<rparr>"

text \<open>
  One round of the constructor's loop over the characters of its argument.
  \<open>str(ord(d) - 96)\<close> maps the letters \<open>a\<close> .. \<open>i\<close> to the digits \<open>1\<close> .. \<open>9\<close>.
\<close>

definition cell_init_step :: "char \<Rightarrow> cell \<Rightarrow> cell" where
  "cell_init_step d c =
     (if d = BLACK then c\<lparr>black := True\<rparr>
      else if d \<in> set BLACK_ALL then
        c\<lparr>black := True, digits := digits c @ [char_of (of_char d - (48::nat))]\<rparr>
      else if d \<in> set ALL_digits then c\<lparr>digits := digits c @ [d], given := True\<rparr>
      else if d \<in> set UNKNOWN then c\<lparr>digits := digits c @ ALL_digits\<rparr>
      else c)"

definition Cell :: "string \<Rightarrow> cell" where
  "Cell ds = (let c = fold cell_init_step ds cell0
              in c\<lparr>known := (length (digits c) = 1)\<rparr>)"

definition is_black :: "cell \<Rightarrow> bool" where
  "is_black c = black c"

definition is_white :: "cell \<Rightarrow> bool" where
  "is_white c = (\<not> black c)"

definition is_known :: "cell \<Rightarrow> bool" where
  "is_known c = known c"

definition is_unknown :: "cell \<Rightarrow> bool" where
  "is_unknown c = (\<not> known c \<and> \<not> black c)"

text \<open>
  The body of the loop of \<open>can_not_be\<close> for one digit \<open>d\<close> of the argument:
  \<open>list.remove\<close> deletes the first occurrence.
\<close>

definition can_not_be_step :: "char \<Rightarrow> cell \<Rightarrow> cell" where
  "can_not_be_step d c =
     (if d \<in> set (digits c) then
        c\<lparr>digits := remove1 d (digits c),
          removed := insert d (removed c),
          sure_candidates_by_row := sure_candidates_by_row c - {d},
          sure_candidates_by_col := sure_candidates_by_col c - {d}\<rparr>
      else c)"

text \<open>
  \<open>Cell.can_not_be(n)\<close>. The argument is any iterable of digits (a string, a list, a
  set); the model takes the sequence \<open>n\<close> in which it is iterated.
\<close>

definition can_not_be :: "cell \<Rightarrow> char list \<Rightarrow> cell" where
  "can_not_be c n =
     (if is_unknown c then
        (let c' = fold can_not_be_step n c
         in if length (digits c') = 1 then c'\<lparr>known := True\<rparr> else c')
      else c)"

text \<open>\<open>Cell.value_is(n)\<close>: the assertion raises before anything is changed.\<close>

definition value_is :: "cell \<Rightarrow> char \<Rightarrow> error + cell" where
  "value_is c n =
     (if n \<in> set (digits c) then
        Inr (c\<lparr>removed := removed c \<union> {d \<in> set (digits c). d \<noteq> n},
               digits := [n], known := True\<rparr>)
      else Inl AssertionError)"

text \<open>The data-model invariant of a cell: the flag \<open>known\<close> says that one candidate is left.\<close>

definition cell_inv :: "cell \<Rightarrow> bool" where
  "cell_inv c = (known c \<longleftrightarrow> length (digits c) = 1)"

section \<open>Properties of the cell operations\<close>

lemma fold_can_not_be_step_flags:
  "black (fold can_not_be_step n c) = black c \<and> known (fold can_not_be_step n c) = known c
   \<and> given (fold can_not_be_step n c) = given c"
  by (induction n arbitrary: c) (auto simp: can_not_be_step_def)

lemma fold_can_not_be_step_absent:
  "set n \<inter> set (digits c) = {} \<Longrightarrow> fold can_not_be_step n c = c"
  by (induction n arbitrary: c) (auto simp: can_not_be_step_def)

lemma fold_can_not_be_step_distinct:
  "distinct (digits c) \<Longrightarrow> distinct (digits (fold can_not_be_step n c))"
  by (induction n arbitrary: c) (auto simp: can_not_be_step_def)

lemma fold_can_not_be_step_digits:
  "distinct (digits c) \<Longrightarrow> set (digits (fold can_not_be_step n c)) = set (digits c) - set n"
proof (induction n arbitrary: c)
  case Nil
  then show ?case by simp
next
  case (Cons d n)
  have d: "distinct (digits (can_not_be_step d c))"
    using Cons.prems by (simp add: can_not_be_step_def)
  have "set (digits (can_not_be_step d c)) = set (digits c) - {d}"
    using Cons.prems by (auto simp: can_not_be_step_def)
  with Cons.IH [OF d] show ?case by auto
qed

lemma fold_can_not_be_step_subset:
  "set (digits (fold can_not_be_step n c)) \<subseteq> set (digits c)"
proof (induction n arbitrary: c)
  case Nil
  then show ?case by simp
next
  case (Cons d n)
  have "set (digits (can_not_be_step d c)) \<subseteq> set (digits c)"
    using set_remove1_subset [of d "digits c"] by (auto simp: can_not_be_step_def)
  with Cons.IH [of "can_not_be_step d c"] show ?case by auto
qed

lemma fold_can_not_be_step_sc_row:
  "distinct (digits c) \<Longrightarrow>
   sure_candidates_by_row (fold can_not_be_step n c)
     = sure_candidates_by_row c - (set n \<inter> set (digits c))"
proof (induction n arbitrary: c)
  case Nil
  then show ?case by simp
next
  case (Cons d n)
  have d: "distinct (digits (can_not_be_step d c))"
    using Cons.prems by (simp add: can_not_be_step_def)
  show ?case
    using Cons.prems Cons.IH [OF d] by (auto simp: can_not_be_step_def)
qed

lemma fold_can_not_be_step_sc_col:
  "distinct (digits c) \<Longrightarrow>
   sure_candidates_by_col (fold can_not_be_step n c)
     = sure_candidates_by_col c - (set n \<inter> set (digits c))"
proof (induction n arbitrary: c)
  case Nil
  then show ?case by simp
next
  case (Cons d n)
  have d: "distinct (digits (can_not_be_step d c))"
    using Cons.prems by (simp add: can_not_be_step_def)
  show ?case
    using Cons.prems Cons.IH [OF d] by (auto simp: can_not_be_step_def)
qed

lemma can_not_be_subset: "set (digits (can_not_be c n)) \<subseteq> set (digits c)"
  using fold_can_not_be_step_subset [of n c] by (simp add: can_not_be_def Let_def)

lemma can_not_be_distinct: "distinct (digits c) \<Longrightarrow> distinct (digits (can_not_be c n))"
  using fold_can_not_be_step_distinct [of c n] by (simp add: can_not_be_def Let_def)

lemma can_not_be_inv: "cell_inv c \<Longrightarrow> cell_inv (can_not_be c n)"
  using fold_can_not_be_step_flags [of n c]
  by (auto simp: can_not_be_def Let_def cell_inv_def is_unknown_def)

lemma value_is_inv: "value_is c d = Inr c' \<Longrightarrow> cell_inv c'"
  by (auto simp: value_is_def cell_inv_def split: if_splits)

lemma value_is_subset: "value_is c d = Inr c' \<Longrightarrow> set (digits c') \<subseteq> set (digits c)"
  by (auto simp: value_is_def split: if_splits)

lemma Cell_inv: "cell_inv (Cell ds)"
  by (simp add: Cell_def cell_inv_def Let_def)

text \<open>
  Claim C5. Every cell operation maintains the invariant that \<open>known\<close> is true exactly
  when the candidate list has one element: the constructor establishes it for every
  argument string, \<open>can_not_be\<close> preserves it, and \<open>value_is\<close>, when its assertion
  passes, returns a cell that satisfies it.
\<close>

theorem cell_operations_maintain_known_invariant:
  "cell_inv (Cell ds)
   \<and> (cell_inv c \<longrightarrow> cell_inv (can_not_be c n))
   \<and> (cell_inv c \<longrightarrow> (\<forall>c'. value_is c d = Inr c' \<longrightarrow> cell_inv c'))"
  by (simp add: Cell_inv can_not_be_inv value_is_inv)

theorem cell_operations_maintain_known_invariant_witness:
  "cell_inv (Cell ''123'')
   \<and> cell_inv (can_not_be (Cell ''123'') ''13'')
   \<and> known (can_not_be (Cell ''123'') ''13'')
   \<and> (\<exists>c'. value_is (Cell ''123'') (CHR ''2'') = Inr c' \<and> cell_inv c')"
proof -
  have e: "Cell ''123'' = \<lparr> black = False, given = True, digits = ''123'', removed = {},
       sure_candidates_by_row = {}, sure_candidates_by_col = {}, known = False \<rparr>"
    by code_simp
  have i: "cell_inv (Cell ''123'')" by (simp add: e cell_inv_def)
  have k: "known (can_not_be (Cell ''123'') ''13'')"
    by (simp add: e can_not_be_def is_unknown_def can_not_be_step_def)
  have v: "\<exists>c'. value_is (Cell ''123'') (CHR ''2'') = Inr c'"
    by (simp add: e value_is_def)
  show ?thesis
    using cell_operations_maintain_known_invariant [of "''123''" "Cell ''123''" "''13''" "CHR ''2''"]
      i k v by blast
qed

lemma Cell_eval_simps:
  "Cell ''5'' = \<lparr> black = False, given = True, digits = ''5'', removed = {},
       sure_candidates_by_row = {}, sure_candidates_by_col = {}, known = True \<rparr>"
  "Cell ''c'' = \<lparr> black = True, given = False, digits = ''3'', removed = {},
       sure_candidates_by_row = {}, sure_candidates_by_col = {}, known = True \<rparr>"
  "Cell ''123'' = \<lparr> black = False, given = True, digits = ''123'', removed = {},
       sure_candidates_by_row = {}, sure_candidates_by_col = {}, known = False \<rparr>"
  by code_simp+

lemma can_not_be_unknown_digits:
  assumes "is_unknown c" and "distinct (digits c)"
  shows "set (digits (can_not_be c n)) = set (digits c) - set n"
  using assms fold_can_not_be_step_digits [of c n]
  by (simp add: can_not_be_def Let_def)

lemma can_not_be_idem:
  assumes "distinct (digits c)"
  shows "can_not_be (can_not_be c n) n = can_not_be c n"
proof (cases "is_unknown c")
  case False
  then show ?thesis by (simp add: can_not_be_def)
next
  case True
  define c' where "c' = fold can_not_be_step n c"
  have fl: "black c' = black c" "known c' = known c"
    using fold_can_not_be_step_flags [of n c] by (simp_all add: c'_def)
  have dg: "set n \<inter> set (digits c') = {}"
    using fold_can_not_be_step_digits [OF assms, of n] by (auto simp: c'_def)
  show ?thesis
  proof (cases "length (digits c') = 1")
    case one: True
    then have "can_not_be c n = c'\<lparr>known := True\<rparr>"
      using True by (simp add: can_not_be_def c'_def)
    then show ?thesis by (simp add: can_not_be_def is_unknown_def)
  next
    case many: False
    then have r: "can_not_be c n = c'"
      using True by (simp add: can_not_be_def c'_def)
    have "is_unknown c'" using True fl by (simp add: is_unknown_def)
    then have "can_not_be c' n = c'"
      using many fold_can_not_be_step_absent [OF dg] by (simp add: can_not_be_def)
    with r show ?thesis by simp
  qed
qed

text \<open>
  Claim C10. On a cell that is black or already known, \<open>can_not_be\<close> changes no field,
  whatever digits it is given; so on a cell that satisfies the invariant and has one
  candidate left, that last candidate cannot be removed through \<open>can_not_be\<close>.
\<close>

theorem can_not_be_frame_black_or_known:
  "(black c \<or> known c \<longrightarrow> can_not_be c n = c)
   \<and> (cell_inv c \<and> length (digits c) = 1 \<longrightarrow> can_not_be c n = c)"
  by (auto simp: can_not_be_def is_unknown_def cell_inv_def)

theorem can_not_be_frame_black_or_known_witness:
  "(black (Cell ''c'') \<or> known (Cell ''c''))
   \<and> cell_inv (Cell ''c'') \<and> length (digits (Cell ''c'')) = 1
   \<and> can_not_be (Cell ''c'') ''3'' = Cell ''c''"
  using can_not_be_frame_black_or_known [of "Cell ''c''" "''3''"]
  by (simp add: Cell_eval_simps cell_inv_def)

text \<open>
  Claim C8, as the specification states it, speaks of every white cell. It fails on a
  white cell that is already known: the given digit \<open>5\<close> of the white cell built from
  \<open>''5''\<close> is still a candidate after \<open>can_not_be\<close> was asked to remove it.
\<close>

theorem can_not_be_white_known_counterexample:
  "is_white (Cell ''5'') \<and> CHR ''5'' \<in> set (digits (can_not_be (Cell ''5'') ''5''))"
  by (simp add: Cell_eval_simps is_white_def can_not_be_def is_unknown_def)

text \<open>
  Claim C8, amended. On a cell that is white and not yet known, with the invariant and a
  candidate list without repeats, \<open>can_not_be\<close> removes exactly the given digits from
  the candidates, sets \<open>known\<close> to whether one candidate is left, and removes from both
  sure-candidate sets exactly the digits it eliminated; when none of the given digits is
  a candidate the cell is unchanged. On every cell with a candidate list without repeats,
  applying it twice with the same digits gives the same cell as applying it once.
\<close>

theorem can_not_be_on_unknown_cell:
  "(distinct (digits c) \<longrightarrow> can_not_be (can_not_be c n) n = can_not_be c n)
   \<and> (is_unknown c \<and> cell_inv c \<and> distinct (digits c) \<longrightarrow>
        set (digits (can_not_be c n)) = set (digits c) - set n
      \<and> (known (can_not_be c n) \<longleftrightarrow> length (digits (can_not_be c n)) = 1)
      \<and> sure_candidates_by_row (can_not_be c n)
          = sure_candidates_by_row c - (set n \<inter> set (digits c))
      \<and> sure_candidates_by_col (can_not_be c n)
          = sure_candidates_by_col c - (set n \<inter> set (digits c))
      \<and> (set n \<inter> set (digits c) = {} \<longrightarrow> can_not_be c n = c))"
proof -
  have idem: "distinct (digits c) \<longrightarrow> can_not_be (can_not_be c n) n = can_not_be c n"
    by (simp add: can_not_be_idem)
  have rest: "set (digits (can_not_be c n)) = set (digits c) - set n
      \<and> (known (can_not_be c n) \<longleftrightarrow> length (digits (can_not_be c n)) = 1)
      \<and> sure_candidates_by_row (can_not_be c n)
          = sure_candidates_by_row c - (set n \<inter> set (digits c))
      \<and> sure_candidates_by_col (can_not_be c n)
          = sure_candidates_by_col c - (set n \<inter> set (digits c))
      \<and> (set n \<inter> set (digits c) = {} \<longrightarrow> can_not_be c n = c)"
    if u: "is_unknown c" and i: "cell_inv c" and d: "distinct (digits c)"
  proof -
    have k: "\<not> known c" "length (digits c) \<noteq> 1"
      using u i by (auto simp: is_unknown_def cell_inv_def)
    have "known (fold can_not_be_step n c) = known c"
      using fold_can_not_be_step_flags [of n c] by simp
    then show ?thesis
      using u k fold_can_not_be_step_digits [OF d, of n]
        fold_can_not_be_step_sc_row [OF d, of n] fold_can_not_be_step_sc_col [OF d, of n]
        fold_can_not_be_step_absent [of n c]
      by (simp add: can_not_be_def Let_def)
  qed
  from idem rest show ?thesis by blast
qed

theorem can_not_be_on_unknown_cell_witness:
  "is_unknown (Cell ''123'') \<and> cell_inv (Cell ''123'') \<and> distinct (digits (Cell ''123''))
   \<and> set (digits (can_not_be (Cell ''123'') ''25'')) = {CHR ''1'', CHR ''3''}
   \<and> can_not_be (can_not_be (Cell ''123'') ''25'') ''25'' = can_not_be (Cell ''123'') ''25''"
  using can_not_be_on_unknown_cell [of "Cell ''123''" "''25''"]
  by (auto simp: Cell_eval_simps cell_inv_def is_unknown_def)

section \<open>Python helpers\<close>

text \<open>
  \<open>xs.index(d)\<close> raises \<open>ValueError\<close> when \<open>d\<close> is not in the list; \<open>min\<close> and
  \<open>max\<close> raise \<open>ValueError\<close> on an empty sequence. One-character strings compare by
  code point, which is the order on \<^typ>\<open>char\<close>.
\<close>

fun index_of :: "char list \<Rightarrow> char \<Rightarrow> error + int" where
  "index_of [] d = Inl ValueError"
| "index_of (x # xs) d =
     (if x = d then Inr 0
      else (case index_of xs d of Inl e \<Rightarrow> Inl e | Inr i \<Rightarrow> Inr (i + 1)))"

definition py_min :: "char list \<Rightarrow> error + char" where
  "py_min ds = (if ds = [] then Inl ValueError else Inr (Min (set ds)))"

definition py_max :: "char list \<Rightarrow> error + char" where
  "py_max ds = (if ds = [] then Inl ValueError else Inr (Max (set ds)))"

text \<open>The slices \<open>xs[:k]\<close> and \<open>xs[m:]\<close>; a negative bound counts from the end.\<close>

definition slice_to :: "'a list \<Rightarrow> int \<Rightarrow> 'a list" where
  "slice_to xs k = (if 0 \<le> k then take (nat k) xs else take (nat (int (length xs) + k)) xs)"

definition slice_from :: "'a list \<Rightarrow> int \<Rightarrow> 'a list" where
  "slice_from xs m = (if 0 \<le> m then drop (nat m) xs else drop (nat (int (length xs) + m)) xs)"

text \<open>
  \<open>itertools.combinations(xs, r)\<close>: the subsequences of length \<open>r\<close>, those with the
  earlier elements first.
\<close>

fun combinations :: "'a list \<Rightarrow> nat \<Rightarrow> 'a list list" where
  "combinations xs 0 = [[]]"
| "combinations [] (Suc r) = []"
| "combinations (x # xs) (Suc r) = map ((#) x) (combinations xs r) @ combinations xs (Suc r)"

text \<open>Sequencing of two computations that can raise.\<close>

definition ebind :: "error + 'a \<Rightarrow> ('a \<Rightarrow> error + 'b) \<Rightarrow> error + 'b" where
  "ebind m f = (case m of Inl e \<Rightarrow> Inl e | Inr x \<Rightarrow> f x)"

text \<open>A loop whose body can raise: the first exception ends it.\<close>

fun efold :: "('a \<Rightarrow> 's \<Rightarrow> error + 's) \<Rightarrow> 'a list \<Rightarrow> 's \<Rightarrow> error + 's" where
  "efold f [] s = Inr s"
| "efold f (x # xs) s = (case f x s of Inl e \<Rightarrow> Inl e | Inr s' \<Rightarrow> efold f xs s')"

section \<open>Cells of a board\<close>

text \<open>
  A board is a dictionary from \<open>(x, y)\<close>, a column label and a row label, to its cell
  object. Every board that the constructor returns has all 81 keys, and a cell object is
  never replaced, so a reference to a cell is its key, and the cells of a board are a
  store from keys to cell states. Functions that take cells (a compartment, a line) take
  the list of their keys and the store.
\<close>

type_synonym pos = "char \<times> char"

type_synonym store = "pos \<Rightarrow> cell"

definition cell_can_not_be :: "pos \<Rightarrow> char list \<Rightarrow> store \<Rightarrow> store" where
  "cell_can_not_be p n s = s(p := can_not_be (s p) n)"

definition cell_value_is :: "pos \<Rightarrow> char \<Rightarrow> store \<Rightarrow> error + store" where
  "cell_value_is p d s = (case value_is (s p) d of Inl e \<Rightarrow> Inl e | Inr c \<Rightarrow> Inr (s(p := c)))"

text \<open>\<open>generate_compartments_by_cell\<close>, with the compartment under construction as \<open>cur\<close>.\<close>

fun generate_compartments_loop :: "store \<Rightarrow> pos list \<Rightarrow> pos list \<Rightarrow> pos list list" where
  "generate_compartments_loop s [] cur = (if cur \<noteq> [] then [cur] else [])"
| "generate_compartments_loop s (p # ps) cur =
     (if is_white (s p) then generate_compartments_loop s ps (cur @ [p])
      else if cur \<noteq> [] then cur # generate_compartments_loop s ps []
      else generate_compartments_loop s ps cur)"

definition generate_compartments_by_cell :: "store \<Rightarrow> pos list \<Rightarrow> pos list list" where
  "generate_compartments_by_cell s ps = generate_compartments_loop s ps []"

subsection \<open>Compartment range check\<close>

text \<open>
  The two \<open>while\<close> loops of \<open>compartment_range_check_by_cells\<close>: the first index from
  \<open>i\<close> upwards (below 9) that is not in \<open>lowest\<close>, and the first index from \<open>i\<close>
  downwards (not below 0) that is not in \<open>highest\<close>.
\<close>

function first_free_up :: "int \<Rightarrow> int set \<Rightarrow> int" where
  "first_free_up i lowest = (if i < 9 \<and> i \<in> lowest then first_free_up (i + 1) lowest else i)"
  by pat_completeness auto
termination
  by (relation "measure (\<lambda>(i, lowest). nat (9 - i))") auto

function first_free_down :: "int \<Rightarrow> int set \<Rightarrow> int" where
  "first_free_down i highest =
     (if 0 \<le> i \<and> i \<in> highest then first_free_down (i - 1) highest else i)"
  by pat_completeness auto
termination
  by (relation "measure (\<lambda>(i, highest). nat (i + 1))") auto

declare first_free_up.simps [simp del] first_free_down.simps [simp del]

text \<open>One round of the loop over the cells: the state is \<open>(lowest, highest)\<close>.\<close>

definition range_check_step :: "store \<Rightarrow> pos \<Rightarrow> int set \<times> int set \<Rightarrow> error + int set \<times> int set" where
  "range_check_step s p lh =
     (case py_min (digits (s p)) of Inl e \<Rightarrow> Inl e | Inr mn \<Rightarrow>
      case index_of ALL_digits mn of Inl e \<Rightarrow> Inl e | Inr min_digit_index \<Rightarrow>
      case py_max (digits (s p)) of Inl e \<Rightarrow> Inl e | Inr mx \<Rightarrow>
      case index_of ALL_digits mx of Inl e \<Rightarrow> Inl e | Inr max_digit_index \<Rightarrow>
        Inr (insert (first_free_up min_digit_index (fst lh)) (fst lh),
             insert (first_free_down max_digit_index (snd lh)) (snd lh)))"

definition digits_out_of_range :: "pos list \<Rightarrow> store \<Rightarrow> error + char list" where
  "digits_out_of_range compartment s =
     (let reach = int (length compartment) - 1 in
      case efold (range_check_step s) compartment ({}, {}) of Inl e \<Rightarrow> Inl e
      | Inr (lowest, highest) \<Rightarrow>
          if lowest = {} \<or> highest = {} then Inl ValueError
          else Inr (slice_to ALL_digits (max (Max lowest - reach) 0)
                    @ slice_from ALL_digits (Min highest + reach + 1)))"

definition compartment_range_check_by_cells :: "pos list \<Rightarrow> store \<Rightarrow> error + store" where
  "compartment_range_check_by_cells compartment s =
     (case digits_out_of_range compartment s of Inl e \<Rightarrow> Inl e
      | Inr out \<Rightarrow>
          if out \<noteq> [] then Inr (fold (\<lambda>c. cell_can_not_be c out) compartment s)
          else Inr s)"

subsection \<open>Naked groups\<close>

text \<open>
  \<open>naked_groups_by_cells\<close> is called with cells and, from \<open>split_compartments_by_cells\<close>,
  with \<open>ProxyCell\<close> objects: a proxy holds its own fixed set of digits and passes
  \<open>can_not_be\<close> on to its cell.
\<close>

datatype cref = CellRef pos | ProxyCell "char set" pos

fun cref_digits :: "store \<Rightarrow> cref \<Rightarrow> char set" where
  "cref_digits s (CellRef p) = set (digits (s p))"
| "cref_digits s (ProxyCell ds p) = ds"

fun cref_pos :: "cref \<Rightarrow> pos" where
  "cref_pos (CellRef p) = p"
| "cref_pos (ProxyCell ds p) = p"

definition cref_can_not_be :: "cref \<Rightarrow> char list \<Rightarrow> store \<Rightarrow> store" where
  "cref_can_not_be c n s = cell_can_not_be (cref_pos c) n s"

text \<open>
  The body of the loop over the combinations. \<open>digits\<close> is the union of the candidates
  of the combination. The argument of \<open>can_not_be\<close> is this set; it is iterated here in
  increasing order (the result of \<open>can_not_be\<close> does not depend on the order in which
  different digits are removed).
\<close>

definition naked_group_exclude :: "cref list \<Rightarrow> char set \<Rightarrow> cref \<Rightarrow> store \<Rightarrow> store" where
  "naked_group_exclude combination ds c s =
     (if c \<in> set combination then s
      else if \<not> cref_digits s c \<subseteq> ds then cref_can_not_be c (sorted_list_of_set ds) s
      else s)"

definition naked_group_combination :: "cref list \<Rightarrow> cref list \<Rightarrow> store \<Rightarrow> store" where
  "naked_group_combination cells combination s =
     (let ds = \<Union> (set (map (cref_digits s) combination)) in
      if card ds = length combination
      then fold (naked_group_exclude combination ds) cells s
      else s)"

text \<open>\<open>xrange(n, 1, -1)\<close>: the sizes \<open>n\<close>, \<open>n - 1\<close>, down to 2.\<close>

fun xrange_down_to_2 :: "nat \<Rightarrow> nat list" where
  "xrange_down_to_2 0 = []"
| "xrange_down_to_2 (Suc n) = (if n = 0 then [] else Suc n # xrange_down_to_2 n)"

definition naked_groups_by_cells :: "cref list \<Rightarrow> store \<Rightarrow> store" where
  "naked_groups_by_cells cells s =
     fold (\<lambda>r. fold (naked_group_combination cells) (combinations cells r))
       (xrange_down_to_2 (length cells)) s"

subsection \<open>Validity check\<close>

text \<open>The 81 keys of a board, in the order in which the constructor inserts them.\<close>

definition all_positions :: "pos list" where
  "all_positions = concat (map (\<lambda>y. map (\<lambda>x. (x, y)) ACROSS) DOWN)"

text \<open>\<open>Cell.value\<close>: the assertion, then \<open>self.digits[0]\<close>.\<close>

definition cell_value :: "cell \<Rightarrow> error + char" where
  "cell_value c =
     (if is_known c then (case digits c of [] \<Rightarrow> Inl IndexError | d # _ \<Rightarrow> Inr d)
      else Inl AssertionError)"

text \<open>
  One of the two loops of \<open>_valid\<close> over the lines, for the cells \<open>ps\<close> of one line and
  the set \<open>seen\<close>.
\<close>

fun valid_line :: "store \<Rightarrow> pos list \<Rightarrow> char set \<Rightarrow> error + unit" where
  "valid_line s [] seen = Inr ()"
| "valid_line s ((x, y) # ps) seen =
     (if is_known (s (x, y)) then
        (case cell_value (s (x, y)) of Inl e \<Rightarrow> Inl e
         | Inr d \<Rightarrow> if d \<in> seen then Inl (InvalidSolution x y d)
                    else valid_line s ps (insert d seen))
      else valid_line s ps seen)"

fun valid_lines :: "store \<Rightarrow> pos list list \<Rightarrow> error + unit" where
  "valid_lines s [] = Inr ()"
| "valid_lines s (l # ls) =
     (case valid_line s l {} of Inl e \<Rightarrow> Inl e | Inr u \<Rightarrow> valid_lines s ls)"

text \<open>
  \<open>Board._valid\<close>. In the first loop the \<open>raise\<close> statement evaluates \<open>x\<close> and \<open>y\<close>,
  which are local variables of the function (the later loops assign them) and are not
  bound yet: evaluating them raises \<open>UnboundLocalError\<close>, whichever white cell without
  candidates the loop meets first. The function writes nothing to the board.
\<close>

definition valid :: "store \<Rightarrow> error + unit" where
  "valid s =
     (if \<exists>p \<in> set all_positions. is_white (s p) \<and> length (digits (s p)) = 0
      then Inl UnboundLocalError
      else case valid_lines s (map (\<lambda>y. map (\<lambda>x. (x, y)) ACROSS) DOWN) of Inl e \<Rightarrow> Inl e
      | Inr u \<Rightarrow> valid_lines s (map (\<lambda>x. map (\<lambda>y. (x, y)) DOWN) ACROSS))"

section \<open>Board\<close>

text \<open>
  The board: its cells, the compartments of every row and column (lists of references
  to cells, fixed by the constructor), the sure candidates of every row and column
  (dictionaries with default \<open>set()\<close>), and the keys of \<open>_known_cells\<close>. The counters
  \<open>counts\<close> and \<open>hits\<close> are written for the report only and are left out, as is
  everything that is printed.
\<close>

record board =
  cells :: store
  chain_length :: int
  compartments_by_row :: "char \<Rightarrow> pos list list"
  compartments_by_col :: "char \<Rightarrow> pos list list"
  sure_candidates_by_cross_row :: "char \<Rightarrow> char set"
  sure_candidates_by_cross_col :: "char \<Rightarrow> char set"
  known_cells :: "pos set"

text \<open>Indexing \<open>xs[i]\<close> and the slice \<open>xs[a:b]\<close> of Python.\<close>

definition py_nth :: "'a list \<Rightarrow> int \<Rightarrow> error + 'a" where
  "py_nth xs i =
     (if 0 \<le> i \<and> i < int (length xs) then Inr (xs ! nat i)
      else if i < 0 \<and> 0 \<le> int (length xs) + i then Inr (xs ! nat (int (length xs) + i))
      else Inl IndexError)"

definition py_slice :: "'a list \<Rightarrow> int \<Rightarrow> int \<Rightarrow> 'a list" where
  "py_slice xs a b =
     (let n = int (length xs);
          a' = (if a < 0 then max (n + a) 0 else a);
          b' = (if b < 0 then max (n + b) 0 else b)
      in take (nat (b' - a')) (drop (nat a') xs))"

subsection \<open>Sure candidates of the lines\<close>

definition union_of_compartment :: "store \<Rightarrow> pos list \<Rightarrow> char set" where
  "union_of_compartment s compartment = \<Union> (set (map (\<lambda>c. set (digits (s c))) compartment))"

text \<open>
  The runs of consecutive digits of the length of the compartment in the sorted union of
  its candidates (the list \<open>c_combinations\<close>); \<open>str8t_at\<close> is one round of the loop
  over \<open>n\<close>.
\<close>

definition str8t_at :: "char list \<Rightarrow> nat \<Rightarrow> nat \<Rightarrow> error + char set list" where
  "str8t_at union_list len_compartment n =
     (case py_nth union_list (int n) of Inl e \<Rightarrow> Inl e | Inr a \<Rightarrow>
      case index_of ALL_digits a of Inl e \<Rightarrow> Inl e | Inr index_start \<Rightarrow>
      case py_nth union_list (int n + int len_compartment - 1) of Inl e \<Rightarrow> Inl e | Inr z \<Rightarrow>
      case index_of ALL_digits z of Inl e \<Rightarrow> Inl e | Inr index_end \<Rightarrow>
        Inr (if index_end - index_start = int len_compartment - 1
             then [set (py_slice union_list (int n) (int n + int len_compartment))]
             else []))"

definition c_combinations :: "store \<Rightarrow> pos list \<Rightarrow> error + char set list" where
  "c_combinations s compartment =
     (let union_list = sorted_list_of_set (union_of_compartment s compartment);
          len_compartment = length compartment
      in efold (\<lambda>n acc. case str8t_at union_list len_compartment n of Inl e \<Rightarrow> Inl e
                         | Inr r \<Rightarrow> Inr (acc @ r))
           [0..<Suc (length union_list) - len_compartment] [])"

definition compartment_combinations :: "store \<Rightarrow> pos list list \<Rightarrow> error + char set list list" where
  "compartment_combinations s compartments =
     efold (\<lambda>compartment acc. case c_combinations s compartment of Inl e \<Rightarrow> Inl e
                              | Inr r \<Rightarrow> Inr (acc @ [r]))
       compartments []"

text \<open>
  The products of one run per compartment that are legal: the runs do not overlap, that
  is, their union has as many digits as the line has white cells. \<open>product_lists\<close> is
  \<open>itertools.product\<close>.
\<close>

definition legal_combinations :: "pos list list \<Rightarrow> char set list list \<Rightarrow> char set list list" where
  "legal_combinations compartments ccs =
     (let total_length = sum_list (map length compartments)
      in filter (\<lambda>combination. card (\<Union> (set combination)) = total_length) (product_lists ccs))"

text \<open>
  The loop \<open>for d in c.digits\<close> under \<open>remove_unusable\<close>. It runs over the list that
  \<open>can_not_be\<close> shortens: the loop reads position \<open>i\<close> of the list as it is then, and
  stops when \<open>i\<close> has reached its length.
\<close>

lemma length_fold_can_not_be_step:
  "length (digits (fold can_not_be_step n c)) \<le> length (digits c)"
proof (induction n arbitrary: c)
  case Nil
  then show ?case by simp
next
  case (Cons d n)
  have "length (digits (can_not_be_step d c)) \<le> length (digits c)"
    by (simp add: can_not_be_step_def length_remove1)
  with Cons.IH [of "can_not_be_step d c"] show ?case by simp
qed

lemma length_can_not_be: "length (digits (can_not_be c n)) \<le> length (digits c)"
  using length_fold_can_not_be_step [of n c] by (simp add: can_not_be_def Let_def)

function remove_unusable_loop :: "pos \<Rightarrow> char set \<Rightarrow> nat \<Rightarrow> store \<Rightarrow> store" where
  "remove_unusable_loop c compartment_union i s =
     (if i < length (digits (s c)) then
        (let d = digits (s c) ! i
         in remove_unusable_loop c compartment_union (Suc i)
              (if d \<notin> compartment_union then cell_can_not_be c [d] s else s))
      else s)"
  by pat_completeness auto
termination
proof (relation "measure (\<lambda>(c, u, i, s). length (digits (s c)) - i)")
  show "wf (measure (\<lambda>(c, u, i, s). length (digits (s c)) - i))" by simp
next
  fix c :: pos and compartment_union :: "char set" and i :: nat and s :: store and d :: char
  assume i: "i < length (digits (s c))"
  have "length (digits (can_not_be (s c) [d])) \<le> length (digits (s c))"
    by (rule length_can_not_be)
  with i show "((c, compartment_union, Suc i,
                 if d \<notin> compartment_union then cell_can_not_be c [d] s else s),
                c, compartment_union, i, s)
               \<in> measure (\<lambda>(c, u, i, s). length (digits (s c)) - i)"
    by (auto simp: cell_can_not_be_def)
qed

declare remove_unusable_loop.simps [simp del]

text \<open>
  \<open>_sure_candidates_by_row\<close>, for one row \<open>y\<close>. \<open>set.intersection(*row_unions)\<close> raises
  \<open>TypeError\<close> when no combination is legal; \<open>min(union)\<close> raises \<open>ValueError\<close> when
  no cell of the compartment has a candidate.
\<close>

definition update_sc_by_row :: "char set \<Rightarrow> pos \<Rightarrow> store \<Rightarrow> store" where
  "update_sc_by_row ds c s =
     s(c := (s c)\<lparr>sure_candidates_by_row :=
                    (sure_candidates_by_row (s c) \<union> ds) \<inter> set (digits (s c))\<rparr>)"

definition update_sc_by_col :: "char set \<Rightarrow> pos \<Rightarrow> store \<Rightarrow> store" where
  "update_sc_by_col ds c s =
     s(c := (s c)\<lparr>sure_candidates_by_col :=
                    (sure_candidates_by_col (s c) \<union> ds) \<inter> set (digits (s c))\<rparr>)"

definition sure_candidates_compartment_by_row ::
    "bool \<Rightarrow> char set list list \<Rightarrow> nat \<times> pos list \<Rightarrow> store \<Rightarrow> store" where
  "sure_candidates_compartment_by_row remove_unusable legal nc s =
     (let legal_unions = map (\<lambda>combination. combination ! fst nc) legal;
          compartment_union = \<Union> (set legal_unions);
          compartment_intersection = \<Inter> (set legal_unions)
      in fold (\<lambda>c s. update_sc_by_row compartment_intersection c
                       (if remove_unusable then remove_unusable_loop c compartment_union 0 s else s))
           (snd nc) s)"

definition sure_candidates_compartment_by_col ::
    "bool \<Rightarrow> char set list list \<Rightarrow> nat \<times> pos list \<Rightarrow> store \<Rightarrow> store" where
  "sure_candidates_compartment_by_col remove_unusable legal nc s =
     (let legal_unions = map (\<lambda>combination. combination ! fst nc) legal;
          compartment_union = \<Union> (set legal_unions);
          compartment_intersection = \<Inter> (set legal_unions)
      in fold (\<lambda>c s. update_sc_by_col compartment_intersection c
                       (if remove_unusable then remove_unusable_loop c compartment_union 0 s else s))
           (snd nc) s)"

text \<open>
  The sure candidates of a line with one compartment: the digits common to the lowest
  and the highest run that the union of the candidates allows.
\<close>

definition lowest_highest_intersection :: "store \<Rightarrow> pos list \<Rightarrow> error + char set" where
  "lowest_highest_intersection s compartment =
     (let union = union_of_compartment s compartment in
      if union = {} then Inl ValueError else
      case index_of ALL_digits (Min union) of Inl e \<Rightarrow> Inl e | Inr index_min \<Rightarrow>
      case index_of ALL_digits (Max union) of Inl e \<Rightarrow> Inl e | Inr i \<Rightarrow>
        (let index_max = i + 1;
             len_compartment = int (length compartment);
             lowest_range = set (py_slice ALL_digits index_min (index_min + len_compartment));
             highest_range = set (py_slice ALL_digits (index_max - len_compartment) index_max)
         in Inr (lowest_range \<inter> highest_range)))"

definition sure_candidates_single_by_row :: "char \<Rightarrow> pos list \<Rightarrow> board \<Rightarrow> error + board" where
  "sure_candidates_single_by_row y compartment b =
     (case lowest_highest_intersection (cells b) compartment of Inl e \<Rightarrow> Inl e
      | Inr intersection \<Rightarrow>
          if intersection \<noteq> {} then
            Inr (b\<lparr>sure_candidates_by_cross_row :=
                     (sure_candidates_by_cross_row b)
                       (y := sure_candidates_by_cross_row b y \<union> intersection),
                   cells := fold (update_sc_by_row intersection) compartment (cells b)\<rparr>)
          else Inr b)"

definition sure_candidates_single_by_col :: "char \<Rightarrow> pos list \<Rightarrow> board \<Rightarrow> error + board" where
  "sure_candidates_single_by_col x compartment b =
     (case lowest_highest_intersection (cells b) compartment of Inl e \<Rightarrow> Inl e
      | Inr intersection \<Rightarrow>
          if intersection \<noteq> {} then
            Inr (b\<lparr>sure_candidates_by_cross_col :=
                     (sure_candidates_by_cross_col b)
                       (x := sure_candidates_by_cross_col b x \<union> intersection),
                   cells := fold (update_sc_by_col intersection) compartment (cells b)\<rparr>)
          else Inr b)"

definition sure_candidates_line_by_row :: "bool \<Rightarrow> char \<Rightarrow> board \<Rightarrow> error + board" where
  "sure_candidates_line_by_row remove_unusable y b =
     (let compartments = compartments_by_row b y in
      if length compartments > 1 then
        (case compartment_combinations (cells b) compartments of Inl e \<Rightarrow> Inl e
         | Inr ccs \<Rightarrow>
            (let legal = legal_combinations compartments ccs in
             if legal = [] then Inl TypeError
             else
               (let row_union = \<Inter> (set (map (\<lambda>combination. \<Union> (set combination)) legal))
                in Inr (b\<lparr>sure_candidates_by_cross_row :=
                            (sure_candidates_by_cross_row b)
                              (y := sure_candidates_by_cross_row b y \<union> row_union),
                          cells := fold (sure_candidates_compartment_by_row remove_unusable legal)
                                     (enumerate 0 compartments) (cells b)\<rparr>))))
      else efold (sure_candidates_single_by_row y) compartments b)"

definition sure_candidates_line_by_col :: "bool \<Rightarrow> char \<Rightarrow> board \<Rightarrow> error + board" where
  "sure_candidates_line_by_col remove_unusable x b =
     (let compartments = compartments_by_col b x in
      if length compartments > 1 then
        (case compartment_combinations (cells b) compartments of Inl e \<Rightarrow> Inl e
         | Inr ccs \<Rightarrow>
            (let legal = legal_combinations compartments ccs in
             if legal = [] then Inl TypeError
             else
               (let col_union = \<Inter> (set (map (\<lambda>combination. \<Union> (set combination)) legal))
                in Inr (b\<lparr>sure_candidates_by_cross_col :=
                            (sure_candidates_by_cross_col b)
                              (x := sure_candidates_by_cross_col b x \<union> col_union),
                          cells := fold (sure_candidates_compartment_by_col remove_unusable legal)
                                     (enumerate 0 compartments) (cells b)\<rparr>))))
      else efold (sure_candidates_single_by_col x) compartments b)"

definition sure_candidates_by_row_internal :: "bool \<Rightarrow> board \<Rightarrow> error + board" where
  "sure_candidates_by_row_internal remove_unusable b =
     efold (sure_candidates_line_by_row remove_unusable) DOWN b"

definition sure_candidates_by_col_internal :: "bool \<Rightarrow> board \<Rightarrow> error + board" where
  "sure_candidates_by_col_internal remove_unusable b =
     efold (sure_candidates_line_by_col remove_unusable) ACROSS b"

subsection \<open>The constructor\<close>

text \<open>
  \<open>Board(board, chain_length)\<close> for a list of rows of digit strings: a missing row or
  entry is a black cell. The constructor then stores the compartments and computes the
  sure candidates, without removing candidates; an exception of that computation leaves
  it.
\<close>

definition board_digits :: "string list list \<Rightarrow> nat \<Rightarrow> nat \<Rightarrow> string" where
  "board_digits rows ny nx =
     (if ny < length rows \<and> nx < length (rows ! ny) then rows ! ny ! nx else [BLACK])"

text \<open>
  The two loops of the constructor bind every key \<open>(x, y)\<close> to the cell built from
  the entry of the board at the indices of \<open>y\<close> in \<open>DOWN\<close> and of \<open>x\<close> in \<open>ACROSS\<close>.
  (The store is total: outside the 81 keys, which no modelled code reads, it holds a
  black cell.)
\<close>

fun label_index :: "char list \<Rightarrow> char \<Rightarrow> nat option" where
  "label_index [] c = None"
| "label_index (l # ls) c = (if l = c then Some 0 else map_option Suc (label_index ls c))"

definition board_cells :: "string list list \<Rightarrow> store" where
  "board_cells rows =
     (\<lambda>(x, y). case label_index DOWN y of None \<Rightarrow> Cell [BLACK]
              | Some ny \<Rightarrow> (case label_index ACROSS x of None \<Rightarrow> Cell [BLACK]
                           | Some nx \<Rightarrow> Cell (board_digits rows ny nx)))"

text \<open>
  \<open>_generate_compartments_by_row\<close> and \<open>_generate_compartments_by_col\<close> build a
  dictionary from the labels of the lines to their compartments; it is read at these
  labels only.
\<close>

definition dict_get :: "('k \<times> 'v list) list \<Rightarrow> 'k \<Rightarrow> 'v list" where
  "dict_get d k = (case map_of d k of None \<Rightarrow> [] | Some v \<Rightarrow> v)"

definition generate_compartments_by_row :: "store \<Rightarrow> (char \<times> pos list list) list" where
  "generate_compartments_by_row s =
     map (\<lambda>y. (y, generate_compartments_by_cell s (map (\<lambda>x. (x, y)) ACROSS))) DOWN"

definition generate_compartments_by_col :: "store \<Rightarrow> (char \<times> pos list list) list" where
  "generate_compartments_by_col s =
     map (\<lambda>x. (x, generate_compartments_by_cell s (map (\<lambda>y. (x, y)) DOWN))) ACROSS"

definition Board :: "string list list \<Rightarrow> int \<Rightarrow> error + board" where
  "Board rows chain =
     (let s = board_cells rows;
          b = \<lparr> cells = s, chain_length = chain,
                compartments_by_row = dict_get (generate_compartments_by_row s),
                compartments_by_col = dict_get (generate_compartments_by_col s),
                sure_candidates_by_cross_row = (\<lambda>y. {}),
                sure_candidates_by_cross_col = (\<lambda>x. {}),
                known_cells = {} \<rparr>
      in case sure_candidates_by_row_internal False b of Inl e \<Rightarrow> Inl e
         | Inr b' \<Rightarrow> sure_candidates_by_col_internal False b')"

text \<open>The loops of the techniques over all compartments of the rows and of the columns.\<close>

definition iter_compartments_by_row :: "board \<Rightarrow> pos list list" where
  "iter_compartments_by_row b = concat (map (compartments_by_row b) DOWN)"

definition iter_compartments_by_col :: "board \<Rightarrow> pos list list" where
  "iter_compartments_by_col b = concat (map (compartments_by_col b) ACROSS)"

definition compartment_range_check_by_row :: "board \<Rightarrow> error + bool \<times> board" where
  "compartment_range_check_by_row b =
     (case efold compartment_range_check_by_cells (iter_compartments_by_row b) (cells b) of
        Inl e \<Rightarrow> Inl e
      | Inr s \<Rightarrow> Inr (False, b\<lparr>cells := s\<rparr>))"

definition compartment_range_check_by_col :: "board \<Rightarrow> error + bool \<times> board" where
  "compartment_range_check_by_col b =
     (case efold compartment_range_check_by_cells (iter_compartments_by_col b) (cells b) of
        Inl e \<Rightarrow> Inl e
      | Inr s \<Rightarrow> Inr (False, b\<lparr>cells := s\<rparr>))"

definition naked_groups_by_row :: "board \<Rightarrow> error + bool \<times> board" where
  "naked_groups_by_row b =
     Inr (False, b\<lparr>cells :=
       fold (\<lambda>y s. naked_groups_by_cells
                      (map CellRef (filter (\<lambda>p. is_unknown (s p)) (map (\<lambda>x. (x, y)) ACROSS))) s)
         DOWN (cells b)\<rparr>)"

definition naked_groups_by_col :: "board \<Rightarrow> error + bool \<times> board" where
  "naked_groups_by_col b =
     Inr (False, b\<lparr>cells :=
       fold (\<lambda>x s. naked_groups_by_cells
                      (map CellRef (filter (\<lambda>p. is_unknown (s p)) (map (\<lambda>y. (x, y)) DOWN))) s)
         ACROSS (cells b)\<rparr>)"

text \<open>
  The candidates of the cells of a row, as the tests of the source write a board, and
  the candidates of a row after a technique has run on a board that was constructed.
\<close>

definition row_digits :: "store \<Rightarrow> char \<Rightarrow> string list" where
  "row_digits s y = map (\<lambda>x. digits (s (x, y))) ACROSS"

definition row_after :: "error + bool \<times> board \<Rightarrow> char \<Rightarrow> error + string list" where
  "row_after r y = (case r of Inl e \<Rightarrow> Inl e | Inr hb \<Rightarrow> Inr (row_digits (cells (snd hb)) y))"

definition valid_after :: "error + bool \<times> board \<Rightarrow> error + unit" where
  "valid_after r = (case r of Inl e \<Rightarrow> Inl e | Inr hb \<Rightarrow> valid (cells (snd hb)))"

definition row_of :: "error + board \<Rightarrow> char \<Rightarrow> error + string list" where
  "row_of r y = (case r of Inl e \<Rightarrow> Inl e | Inr b \<Rightarrow> Inr (row_digits (cells b) y))"

definition row_compartments_of :: "error + board \<Rightarrow> char \<Rightarrow> error + pos list list" where
  "row_compartments_of r y = (case r of Inl e \<Rightarrow> Inl e | Inr b \<Rightarrow> Inr (compartments_by_row b y))"

section \<open>Properties of the techniques\<close>

subsection \<open>Compartment range check\<close>

lemma fold_cell_can_not_be_at:
  "distinct (digits (s p)) \<Longrightarrow>
   fold (\<lambda>c. cell_can_not_be c n) ps s p = (if p \<in> set ps then can_not_be (s p) n else s p)"
proof (induction ps arbitrary: s)
  case Nil
  then show ?case by simp
next
  case (Cons c ps)
  define s1 where "s1 = cell_can_not_be c n s"
  have s1p: "s1 q = (if q = c then can_not_be (s c) n else s q)" for q
    by (simp add: s1_def cell_can_not_be_def)
  have d1: "distinct (digits (s1 p))"
    using Cons.prems by (auto simp: s1p can_not_be_distinct)
  have ih: "fold (\<lambda>c. cell_can_not_be c n) ps s1 p
          = (if p \<in> set ps then can_not_be (s1 p) n else s1 p)"
    using Cons.IH [of s1] d1 by blast
  have idem: "p = c \<Longrightarrow> can_not_be (can_not_be (s c) n) n = can_not_be (s c) n"
    using Cons.prems by (simp add: can_not_be_idem)
  have "fold (\<lambda>c. cell_can_not_be c n) (c # ps) s p = fold (\<lambda>c. cell_can_not_be c n) ps s1 p"
    by (simp add: s1_def)
  also have "\<dots> = (if p \<in> set (c # ps) then can_not_be (s p) n else s p)"
  proof (cases "p = c")
    case True
    with idem ih show ?thesis by (simp add: s1p)
  next
    case False
    with ih show ?thesis by (simp add: s1p)
  qed
  finally show ?case .
qed

lemma range_check_eliminates:
  assumes "compartment_range_check_by_cells compartment s = Inr s'"
    and "digits_out_of_range compartment s = Inr out"
    and "c \<in> set compartment" and "is_unknown (s c)" and "distinct (digits (s c))"
  shows "set (digits (s' c)) = set (digits (s c)) - set out"
proof (cases "out = []")
  case True
  with assms show ?thesis by (simp add: compartment_range_check_by_cells_def)
next
  case False
  with assms have "s' = fold (\<lambda>c. cell_can_not_be c out) compartment s"
    by (simp add: compartment_range_check_by_cells_def)
  then have "s' c = can_not_be (s c) out"
    using assms(3,5) by (simp add: fold_cell_can_not_be_at)
  then show ?thesis
    using can_not_be_unknown_digits [of "s c" out] assms(4,5) by simp
qed

text \<open>
  Claim C7. The board of the test of the source has the row
  \<open>['234567', '56789', '1235678', '#']\<close>: its row \<open>A\<close> has one compartment, the
  three white cells before the black cell. After \<open>compartment_range_check_by_row\<close> the
  candidates of the row are \<open>['34567', '56789', '35678', '#']\<close> (a black cell has no
  candidates). In general, when the check returns, every digit of the list
  \<open>digits_out_of_range\<close> that it computed, the digits outside the window of consecutive
  values the compartment can reach, is gone from every cell of the compartment that was
  not yet known, and nothing else is.
\<close>

theorem compartment_range_check_scenario:
  "row_compartments_of (Board [[''234567'', ''56789'', ''1235678'', ''#'']] 4) CHR ''A''
     = Inr [[(CHR ''1'', CHR ''A''), (CHR ''2'', CHR ''A''), (CHR ''3'', CHR ''A'')]]
   \<and> row_of (Board [[''234567'', ''56789'', ''1235678'', ''#'']] 4) CHR ''A''
     = Inr [''234567'', ''56789'', ''1235678'', [], [], [], [], [], []]
   \<and> row_after (ebind (Board [[''234567'', ''56789'', ''1235678'', ''#'']] 4)
                  compartment_range_check_by_row) CHR ''A''
     = Inr [''34567'', ''56789'', ''35678'', [], [], [], [], [], []]
   \<and> (compartment_range_check_by_cells compartment s = Inr s'
        \<and> digits_out_of_range compartment s = Inr out
        \<and> c \<in> set compartment \<and> is_unknown (s c) \<and> distinct (digits (s c))
      \<longrightarrow> set (digits (s' c)) = set (digits (s c)) - set out)"
proof -
  have 1: "row_compartments_of (Board [[''234567'', ''56789'', ''1235678'', ''#'']] 4) CHR ''A''
     = Inr [[(CHR ''1'', CHR ''A''), (CHR ''2'', CHR ''A''), (CHR ''3'', CHR ''A'')]]"
    by code_simp
  have 2: "row_of (Board [[''234567'', ''56789'', ''1235678'', ''#'']] 4) CHR ''A''
     = Inr [''234567'', ''56789'', ''1235678'', [], [], [], [], [], []]"
    by code_simp
  have 3: "row_after (ebind (Board [[''234567'', ''56789'', ''1235678'', ''#'']] 4)
                  compartment_range_check_by_row) CHR ''A''
     = Inr [''34567'', ''56789'', ''35678'', [], [], [], [], [], []]"
    by code_simp
  from 1 2 3 range_check_eliminates [of compartment s s' out c] show ?thesis by blast
qed

theorem compartment_range_check_scenario_witness:
  "\<exists>s'. compartment_range_check_by_cells
           [(CHR ''1'', CHR ''A''), (CHR ''2'', CHR ''A''), (CHR ''3'', CHR ''A'')]
           (board_cells [[''234567'', ''56789'', ''1235678'', ''#'']]) = Inr s'
       \<and> digits_out_of_range
           [(CHR ''1'', CHR ''A''), (CHR ''2'', CHR ''A''), (CHR ''3'', CHR ''A'')]
           (board_cells [[''234567'', ''56789'', ''1235678'', ''#'']]) = Inr ''12''
       \<and> set (digits (s' (CHR ''1'', CHR ''A''))) = set ''34567''"
proof -
  let ?comp = "[(CHR ''1'', CHR ''A''), (CHR ''2'', CHR ''A''), (CHR ''3'', CHR ''A'')]"
  let ?s = "board_cells [[''234567'', ''56789'', ''1235678'', ''#'']]"
  have "case compartment_range_check_by_cells ?comp ?s of Inl e \<Rightarrow> False | Inr s' \<Rightarrow> True"
    by code_simp
  then obtain s' where r: "compartment_range_check_by_cells ?comp ?s = Inr s'"
    by (auto split: sum.splits)
  have out: "digits_out_of_range ?comp ?s = Inr ''12''" by code_simp
  have u: "is_unknown (?s (CHR ''1'', CHR ''A''))" by code_simp
  have d: "digits (?s (CHR ''1'', CHR ''A'')) = ''234567''" by code_simp
  have "set (digits (s' (CHR ''1'', CHR ''A''))) = set (digits (?s (CHR ''1'', CHR ''A''))) - set ''12''"
    using compartment_range_check_scenario [of ?comp ?s s' "''12''" "(CHR ''1'', CHR ''A'')"]
      r out u d by simp
  then have "set (digits (s' (CHR ''1'', CHR ''A''))) = set ''34567''"
    by (simp add: d)
  with r out show ?thesis by blast
qed

subsection \<open>Naked groups\<close>

lemma cref_digits_cong:
  "s1 (cref_pos c) = s (cref_pos c) \<Longrightarrow> cref_digits s1 c = cref_digits s c"
  by (cases c) simp_all

lemma naked_group_exclude_apply:
  "naked_group_exclude comb ds c s p =
     (if p = cref_pos c \<and> c \<notin> set comb \<and> \<not> cref_digits s c \<subseteq> ds
      then can_not_be (s p) (sorted_list_of_set ds) else s p)"
  by (simp add: naked_group_exclude_def cref_can_not_be_def cell_can_not_be_def)

lemma fold_naked_group_exclude:
  assumes "distinct (map cref_pos cs)"
  shows "(\<forall>c\<in>set cs. fold (naked_group_exclude comb ds) cs s (cref_pos c)
                        = naked_group_exclude comb ds c s (cref_pos c))
       \<and> (\<forall>p. p \<notin> cref_pos ` set cs \<longrightarrow> fold (naked_group_exclude comb ds) cs s p = s p)"
  using assms
proof (induction cs arbitrary: s)
  case Nil
  then show ?case by simp
next
  case (Cons c0 cs)
  define s1 where "s1 = naked_group_exclude comb ds c0 s"
  have s1q: "s1 q = naked_group_exclude comb ds c0 s q" for q by (simp add: s1_def)
  have off: "q \<noteq> cref_pos c0 \<Longrightarrow> s1 q = s q" for q
    by (simp add: s1q naked_group_exclude_apply)
  have d: "distinct (map cref_pos cs)" and n0: "cref_pos c0 \<notin> cref_pos ` set cs"
    using Cons.prems by auto
  have ih1: "fold (naked_group_exclude comb ds) cs s1 (cref_pos c)
               = naked_group_exclude comb ds c s1 (cref_pos c)" if "c \<in> set cs" for c
    using Cons.IH [OF d, of s1] that by blast
  have ih2: "fold (naked_group_exclude comb ds) cs s1 p = s1 p" if "p \<notin> cref_pos ` set cs" for p
    using Cons.IH [OF d, of s1] that by blast
  have step: "fold (naked_group_exclude comb ds) (c0 # cs) s = fold (naked_group_exclude comb ds) cs s1"
    by (simp add: s1_def)
  have a: "fold (naked_group_exclude comb ds) cs s1 (cref_pos c)
             = naked_group_exclude comb ds c s (cref_pos c)" if c: "c \<in> set (c0 # cs)" for c
  proof (cases "c \<in> set cs")
    case True
    then have ne: "cref_pos c \<noteq> cref_pos c0" using n0 by (metis imageI)
    then have e: "s1 (cref_pos c) = s (cref_pos c)" by (rule off)
    have "naked_group_exclude comb ds c s1 (cref_pos c) = naked_group_exclude comb ds c s (cref_pos c)"
      using cref_digits_cong [of s1 c s] e by (simp add: naked_group_exclude_apply)
    with ih1 [OF True] show ?thesis by simp
  next
    case False
    with c have c0: "c = c0" by simp
    have "fold (naked_group_exclude comb ds) cs s1 (cref_pos c0) = s1 (cref_pos c0)"
      using n0 by (rule ih2)
    with c0 show ?thesis by (simp add: s1q)
  qed
  have b: "fold (naked_group_exclude comb ds) cs s1 p = s p" if p: "p \<notin> cref_pos ` set (c0 # cs)" for p
  proof -
    from p have "p \<notin> cref_pos ` set cs" and "p \<noteq> cref_pos c0" by auto
    then show ?thesis using ih2 [of p] off [of p] by simp
  qed
  from a b show ?case unfolding step by blast
qed

text \<open>
  Claim C6, as the specification states it, fails on the row
  \<open>['12', '12', '12', '123']\<close>. The first two cells are a group of two cells with a
  union of two digits, and the candidates of the third cell are a subset of that union:
  a verification that no outside cell is a subset fails here. Still the technique removes
  \<open>1\<close> and \<open>2\<close> from the fourth cell, and it leaves them in the third, which is one of
  the other cells of the line.
\<close>

theorem naked_groups_subset_cell_counterexample:
  "row_of (Board [[''12'', ''12'', ''12'', ''123'']] 4) CHR ''A''
     = Inr [''12'', ''12'', ''12'', ''123'', [], [], [], [], []]
   \<and> row_after (ebind (Board [[''12'', ''12'', ''12'', ''123'']] 4) naked_groups_by_row) CHR ''A''
     = Inr [''12'', ''12'', ''12'', ''3'', [], [], [], [], []]"
  by code_simp

text \<open>
  Claim C6, amended. The technique goes through the combinations of cells of the list, the
  larger ones first. For a combination of N cells whose candidates have a union of exactly
  N digits it decides for every other cell of the list on its own: a cell whose
  candidates are a subset of the union is left as it is, and from every other cell the
  digits of the union are eliminated with \<open>can_not_be\<close>. The cells of the combination
  and the cells outside the list are unchanged. (The cells of the list are different
  cells, as they are in every call of the source.)
\<close>

theorem naked_group_combination_effect:
  assumes "distinct (map cref_pos cls)"
    and "card (\<Union> (set (map (cref_digits s) combination))) = length combination"
  shows "(\<forall>c\<in>set cls. naked_group_combination cls combination s (cref_pos c) =
             (if c \<in> set combination \<or> cref_digits s c \<subseteq> \<Union> (set (map (cref_digits s) combination))
              then s (cref_pos c)
              else can_not_be (s (cref_pos c))
                     (sorted_list_of_set (\<Union> (set (map (cref_digits s) combination))))))
       \<and> (\<forall>p. p \<notin> cref_pos ` set cls \<longrightarrow> naked_group_combination cls combination s p = s p)"
  using assms(2) fold_naked_group_exclude [OF assms(1), of combination
      "\<Union> (set (map (cref_digits s) combination))" s]
  by (auto simp: naked_group_combination_def Let_def naked_group_exclude_apply)

theorem naked_group_combination_effect_witness:
  "naked_group_combination
     (map CellRef [(CHR ''1'', CHR ''A''), (CHR ''2'', CHR ''A''), (CHR ''3'', CHR ''A''), (CHR ''4'', CHR ''A'')])
     (map CellRef [(CHR ''1'', CHR ''A''), (CHR ''2'', CHR ''A'')])
     (board_cells [[''12'', ''12'', ''12'', ''123'']]) (CHR ''4'', CHR ''A'')
   = can_not_be (board_cells [[''12'', ''12'', ''12'', ''123'']] (CHR ''4'', CHR ''A'')) ''12''
   \<and> naked_group_combination
     (map CellRef [(CHR ''1'', CHR ''A''), (CHR ''2'', CHR ''A''), (CHR ''3'', CHR ''A''), (CHR ''4'', CHR ''A'')])
     (map CellRef [(CHR ''1'', CHR ''A''), (CHR ''2'', CHR ''A'')])
     (board_cells [[''12'', ''12'', ''12'', ''123'']]) (CHR ''3'', CHR ''A'')
   = board_cells [[''12'', ''12'', ''12'', ''123'']] (CHR ''3'', CHR ''A'')"
proof -
  let ?cls = "map CellRef [(CHR ''1'', CHR ''A''), (CHR ''2'', CHR ''A''), (CHR ''3'', CHR ''A''), (CHR ''4'', CHR ''A'')]"
  let ?comb = "map CellRef [(CHR ''1'', CHR ''A''), (CHR ''2'', CHR ''A'')]"
  let ?s = "board_cells [[''12'', ''12'', ''12'', ''123'']]"
  let ?ds = "\<Union> (set (map (cref_digits ?s) ?comb))"
  have d: "distinct (map cref_pos ?cls)" by simp
  have c: "card ?ds = length ?comb" by code_simp
  have f4: "\<not> cref_digits ?s (CellRef (CHR ''4'', CHR ''A'')) \<subseteq> ?ds" by code_simp
  have f3: "cref_digits ?s (CellRef (CHR ''3'', CHR ''A'')) \<subseteq> ?ds" by code_simp
  have l: "sorted_list_of_set ?ds = ''12''" by code_simp
  have m4: "CellRef (CHR ''4'', CHR ''A'') \<in> set ?cls" "CellRef (CHR ''4'', CHR ''A'') \<notin> set ?comb"
    by simp_all
  have m3: "CellRef (CHR ''3'', CHR ''A'') \<in> set ?cls" by simp
  note e = naked_group_combination_effect [OF d c, THEN conjunct1, rule_format]
  from e [OF m4(1)] f4 m4(2) l e [OF m3] f3 show ?thesis by simp
qed

subsection \<open>Validity check\<close>

lemma valid_white_without_candidates:
  assumes "p \<in> set all_positions" and "is_white (s p)" and "digits (s p) = []"
  shows "valid s = Inl UnboundLocalError"
  using assms by (auto simp: valid_def)

lemma valid_InvalidSolution_only_without_empty_white:
  assumes "valid s = Inl (InvalidSolution x y d)"
  shows "\<forall>p\<in>set all_positions. is_white (s p) \<longrightarrow> digits (s p) \<noteq> []"
  using assms by (auto simp: valid_def split: if_splits)

text \<open>
  Claim C3 is right about what the validity check is meant to do, and the code misses
  it. On the board \<open>[['12', '9']]\<close> the compartment range check removes both
  candidates of the white cell \<open>A1\<close>. The validity check of that board then raises
  \<open>UnboundLocalError\<close>, not \<open>InvalidSolution\<close>: its first loop names \<open>x\<close> and \<open>y\<close>
  before they are bound.
\<close>

theorem valid_raises_unbound_local_error:
  "row_of (Board [[''12'', ''9'']] 4) CHR ''A'' = Inr [''12'', ''9'', [], [], [], [], [], [], []]
   \<and> row_after (ebind (Board [[''12'', ''9'']] 4) compartment_range_check_by_row) CHR ''A''
      = Inr [[], ''9'', [], [], [], [], [], [], []]
   \<and> is_white (board_cells [[''12'', ''9'']] (CHR ''1'', CHR ''A''))
   \<and> valid_after (ebind (Board [[''12'', ''9'']] 4) compartment_range_check_by_row)
      = Inl UnboundLocalError"
  by code_simp


section \<open>The driver\<close>

text \<open>
  A technique takes the board, changes it in place and returns whether it hit (\<open>None\<close>
  counts as no hit). It can raise, and the contradiction search can run forever: the
  result is \<open>None\<close> when the call does not return.
\<close>

type_synonym technique = "board \<Rightarrow> (error + bool \<times> board) option"

text \<open>\<open>Board._completeness\<close>: 9 for a known cell, else 9 minus the number of candidates.\<close>

definition cell_completeness :: "cell \<Rightarrow> int" where
  "cell_completeness c = (if is_known c then 9 else 9 - int (length (digits c)))"

definition completeness :: "board \<Rightarrow> int" where
  "completeness b = sum_list (map (\<lambda>p. cell_completeness (cells b p)) all_positions)"

text \<open>
  \<open>Board._clear_removed\<close>. Printing a board with \<open>_to_string\<close> clears the same sets
  (\<open>Cell.__repr__\<close> ends with \<open>self.removed.clear()\<close>).
\<close>

definition clear_removed :: "board \<Rightarrow> board" where
  "clear_removed b = b\<lparr>cells := (\<lambda>p. (cells b p)\<lparr>removed := {}\<rparr>)\<rparr>"

datatype pass_result = Progress int board | NoProgress board

text \<open>
  The \<open>for\<close> loop of \<open>solve\<close> over the techniques, from the technique it has reached:
  \<open>Progress c b\<close> is the \<open>break\<close> with the new completeness, \<open>NoProgress b\<close> the end
  of the list. With \<open>debug\<close> a hit is reported, which prints the board, and the validity
  check runs.
\<close>

fun solve_pass :: "bool \<Rightarrow> technique list \<Rightarrow> int \<Rightarrow> board \<Rightarrow> (error + pass_result) option" where
  "solve_pass debug [] compl b = Some (Inr (NoProgress b))"
| "solve_pass debug (s # steps) compl b =
     (case s b of None \<Rightarrow> None
      | Some (Inl e) \<Rightarrow> Some (Inl e)
      | Some (Inr (hit, b')) \<Rightarrow>
          if hit \<or> compl \<noteq> completeness b' then
            (if debug then
               (case valid (cells (clear_removed b')) of Inl e \<Rightarrow> Some (Inl e)
                | Inr u \<Rightarrow> Some (Inr (Progress (completeness b') (clear_removed b'))))
             else Some (Inr (Progress (completeness b') b')))
          else solve_pass debug steps compl b')"

text \<open>
  The \<open>while\<close> loop of \<open>solve\<close>. The report lines read the module-level variable
  \<open>name\<close>, which the main loop of the script binds before it calls \<open>solve\<close>; what is
  printed is not modelled.
\<close>

definition solve_finish :: "bool \<Rightarrow> board \<Rightarrow> (error + bool \<times> board) option" where
  "solve_finish r b =
     (case valid (cells (clear_removed b)) of Inl e \<Rightarrow> Some (Inl e)
      | Inr u \<Rightarrow> Some (Inr (r, clear_removed b)))"

partial_function (option) solve_loop ::
    "bool \<Rightarrow> technique list \<Rightarrow> int \<Rightarrow> board \<Rightarrow> (error + bool \<times> board) option" where
  "solve_loop debug steps compl b =
     (if compl \<noteq> 729 then
        (case solve_pass debug steps compl b of None \<Rightarrow> None
         | Some (Inl e) \<Rightarrow> Some (Inl e)
         | Some (Inr (Progress c b')) \<Rightarrow> solve_loop debug steps c b'
         | Some (Inr (NoProgress b')) \<Rightarrow>
             if completeness b' = compl then solve_finish False b'
             else solve_loop debug steps compl b')
      else solve_finish True b)"

definition solve :: "bool \<Rightarrow> technique list \<Rightarrow> board \<Rightarrow> (error + bool \<times> board) option" where
  "solve debug steps b = solve_loop debug steps (completeness b) b"

text \<open>A technique that always returns, as a technique.\<close>

definition total_technique :: "(board \<Rightarrow> error + bool \<times> board) \<Rightarrow> technique" where
  "total_technique f b = Some (f b)"

text \<open>
  One full pass over the techniques in which every technique returns without a hit and
  leaves the completeness as it was; \<open>b'\<close> is the board after the pass.
\<close>

fun pass_without_progress :: "technique list \<Rightarrow> board \<Rightarrow> board \<Rightarrow> bool" where
  "pass_without_progress [] b b' \<longleftrightarrow> b' = b"
| "pass_without_progress (s # steps) b b' \<longleftrightarrow>
     (\<exists>b1. s b = Some (Inr (False, b1)) \<and> completeness b1 = completeness b
           \<and> pass_without_progress steps b1 b')"

text \<open>The completeness of a constructed board, and the result of solving it.\<close>

definition completeness_of :: "error + board \<Rightarrow> error + int" where
  "completeness_of r = (case r of Inl e \<Rightarrow> Inl e | Inr b \<Rightarrow> Inr (completeness b))"

definition solve_board ::
    "bool \<Rightarrow> technique list \<Rightarrow> error + board \<Rightarrow> (error + bool \<times> board) option" where
  "solve_board debug steps r = (case r of Inl e \<Rightarrow> Some (Inl e) | Inr b \<Rightarrow> solve debug steps b)"

definition outcome :: "(error + bool \<times> board) option \<Rightarrow> (error + bool) option" where
  "outcome r = (case r of None \<Rightarrow> None | Some (Inl e) \<Rightarrow> Some (Inl e)
                | Some (Inr hb) \<Rightarrow> Some (Inr (fst hb)))"

declare solve_loop.simps [code]

section \<open>Contradiction search\<close>

text \<open>
  The loop of \<open>_solve\<close> over the techniques: the validity check runs after every
  technique.
\<close>

fun chain_pass :: "technique list \<Rightarrow> int \<Rightarrow> board \<Rightarrow> (error + pass_result) option" where
  "chain_pass [] compl board = Some (Inr (NoProgress board))"
| "chain_pass (s # steps) compl board =
     (case s board of None \<Rightarrow> None
      | Some (Inl e) \<Rightarrow> Some (Inl e)
      | Some (Inr (hit, board')) \<Rightarrow>
          (case valid (cells board') of Inl e \<Rightarrow> Some (Inl e)
           | Inr u \<Rightarrow>
               if hit \<or> compl \<noteq> completeness board' then
                 Some (Inr (Progress (completeness board') board'))
               else chain_pass steps compl board'))"

definition chain_finish :: "bool \<Rightarrow> board \<Rightarrow> (error + bool) option" where
  "chain_finish r board =
     (case valid (cells board) of Inl e \<Rightarrow> Some (Inl e) | Inr u \<Rightarrow> Some (Inr r))"

text \<open>The \<open>while\<close> loop of \<open>_solve\<close>, on the copy \<open>board\<close>.\<close>

partial_function (option) chain_solve_loop ::
    "technique list \<Rightarrow> int \<Rightarrow> board \<Rightarrow> (error + bool) option" where
  "chain_solve_loop steps compl board =
     (if compl \<noteq> 729 then
        (case chain_pass steps compl board of None \<Rightarrow> None
         | Some (Inl e) \<Rightarrow> Some (Inl e)
         | Some (Inr (Progress c board')) \<Rightarrow> chain_solve_loop steps c board'
         | Some (Inr (NoProgress board')) \<Rightarrow>
             if completeness board' = compl then chain_finish False board'
             else chain_solve_loop steps compl board')
      else chain_finish True board)"

text \<open>
  The body of the \<open>try\<close> statement up to the test of \<open>_solve(b)\<close>, for the cell at
  \<open>p\<close> and its candidate \<open>d\<close>. \<open>deepcopy(self)\<close> copies every cell, compartment and
  set of the board, so that the copy shares no object with it: the copy is the value
  \<open>self\<close>, and what the replay does to it is not seen in \<open>self\<close>. \<open>_solve\<close> starts
  from the completeness of \<open>b\<close>, the module-level variable that the main loop of the
  script binds to the board it is solving, which is \<open>self\<close>; the techniques run on the
  copy.
\<close>

definition contradiction_trial ::
    "technique list \<Rightarrow> board \<Rightarrow> pos \<Rightarrow> char \<Rightarrow> (error + bool) option" where
  "contradiction_trial steps self p d =
     (case cell_value_is p d (cells self) of Inl e \<Rightarrow> Some (Inl e)
      | Inr s \<Rightarrow> chain_solve_loop steps (completeness self) (self\<lparr>cells := s\<rparr>))"

text \<open>
  The handler of the bare \<open>except\<close>: \<open>cell.can_not_be(d)\<close> on the cell of \<open>self\<close>,
  and \<open>return\<close>.
\<close>

definition contradiction_found :: "board \<Rightarrow> pos \<Rightarrow> char \<Rightarrow> board" where
  "contradiction_found self p d = self\<lparr>cells := cell_can_not_be p [d] (cells self)\<rparr>"

text \<open>
  The trials in the order of the three nested loops. Nothing is written to \<open>self\<close>
  before the function returns, so that the lists the loops run over do not change.
\<close>

fun chain_trials :: "technique list \<Rightarrow> board \<Rightarrow> (pos \<times> char) list \<Rightarrow> (error + bool \<times> board) option" where
  "chain_trials steps self [] = Some (Inr (False, self))"
| "chain_trials steps self ((p, d) # ts) =
     (case contradiction_trial steps self p d of
        None \<Rightarrow> None
      | Some (Inl e) \<Rightarrow> Some (Inr (False, contradiction_found self p d))
      | Some (Inr True) \<Rightarrow>
          (case cell_value_is p d (cells self) of
             Inl e \<Rightarrow> Some (Inr (False, contradiction_found self p d))
           | Inr s \<Rightarrow> Some (Inr (False, self\<lparr>cells := s\<rparr>)))
      | Some (Inr False) \<Rightarrow> chain_trials steps self ts)"

text \<open>
  The cells and digits that the loops try: for every length from 2 to \<open>chain_length\<close>,
  the cells with that many candidates in the order \<open>items\<close> in which the dictionary
  yields its keys, and their candidates in the order of the list.
\<close>

definition trials_of_length :: "pos list \<Rightarrow> board \<Rightarrow> int \<Rightarrow> (pos \<times> char) list" where
  "trials_of_length items self digits_len =
     concat (map (\<lambda>p. if int (length (digits (cells self p))) = digits_len
                        then map (Pair p) (digits (cells self p)) else []) items)"

definition contradiction_candidates :: "pos list \<Rightarrow> board \<Rightarrow> (pos \<times> char) list" where
  "contradiction_candidates items self =
     concat (map (trials_of_length items self) [2..chain_length self])"

definition chain_contradiction :: "pos list \<Rightarrow> technique list \<Rightarrow> technique" where
  "chain_contradiction items steps self =
     chain_trials steps self (contradiction_candidates items self)"

text \<open>
  What the search can have done to the board when it returns: nothing, or the handler ran
  for one of the trials, or one trial was accepted and its digit set in the cell.
\<close>

definition chain_outcome :: "technique list \<Rightarrow> board \<Rightarrow> (pos \<times> char) list \<Rightarrow> board \<Rightarrow> bool" where
  "chain_outcome steps self ts b' \<longleftrightarrow>
     b' = self
     \<or> (\<exists>t\<in>set ts. b' = contradiction_found self (fst t) (snd t))
     \<or> (\<exists>t\<in>set ts. \<exists>s. cell_value_is (fst t) (snd t) (cells self) = Inr s
            \<and> contradiction_trial steps self (fst t) (snd t) = Some (Inr True)
            \<and> b' = self\<lparr>cells := s\<rparr>)"

declare chain_solve_loop.simps [code]

section \<open>Properties of the driver\<close>

lemma cell_completeness_removed: "cell_completeness (c\<lparr>removed := X\<rparr>) = cell_completeness c"
  by (simp add: cell_completeness_def is_known_def)

lemma completeness_clear_removed: "completeness (clear_removed b) = completeness b"
  by (simp add: completeness_def clear_removed_def cell_completeness_removed)

lemma digits_clear_removed: "digits (cells (clear_removed b) p) = digits (cells b p)"
  by (simp add: clear_removed_def)

lemma solve_pass_Progress:
  "solve_pass debug steps compl b = Some (Inr (Progress c b')) \<Longrightarrow> c = completeness b'"
  by (induction steps arbitrary: b)
     (auto simp: completeness_clear_removed split: option.splits sum.splits if_splits)

lemma solve_pass_NoProgress:
  "solve_pass debug steps compl b = Some (Inr (NoProgress b')) \<Longrightarrow>
   compl = completeness b \<Longrightarrow> completeness b' = compl"
  by (induction steps arbitrary: b)
     (auto split: option.splits sum.splits if_splits)

lemma solve_finish_result:
  "solve_finish r b = Some (Inr (r', b')) \<Longrightarrow>
   r' = r \<and> b' = clear_removed b \<and> valid (cells b') = Inr ()"
  by (auto simp: solve_finish_def split: sum.splits)

lemma solve_loop_result_aux:
  assumes "solve_loop debug steps compl b = Some res"
  shows "\<forall>r b'. compl = completeness b \<longrightarrow> res = Inr (r, b') \<longrightarrow>
      (r \<longleftrightarrow> completeness b' = 729) \<and> valid (cells b') = Inr ()"
proof (rule solve_loop.raw_induct
    [where P = "\<lambda>(debug::bool) (steps::technique list) compl b res.
       \<forall>r b'. compl = completeness b \<longrightarrow> res = Inr (r, b') \<longrightarrow>
          (r \<longleftrightarrow> completeness b' = 729) \<and> valid (cells b') = Inr ()", OF _ assms],
    goal_cases)
  case (1 solve_loop debug steps compl b res)
  note IH = "1"(1) and eq = "1"(2)
  show ?case
  proof (intro allI impI)
    fix r b'
    assume inv: "compl = completeness b" and res: "res = Inr (r, b')"
    show "(r \<longleftrightarrow> completeness b' = 729) \<and> valid (cells b') = Inr ()"
    proof (cases "compl \<noteq> 729")
      case False
      with eq res have "solve_finish True b = Some (Inr (r, b'))" by simp
      from solve_finish_result [OF this] False inv show ?thesis
        by (auto simp: completeness_clear_removed)
    next
      case True
      show ?thesis
      proof (cases "solve_pass debug steps compl b")
        case None
        with True eq show ?thesis by simp
      next
        case (Some pr)
        show ?thesis
        proof (cases pr)
          case (Inl e)
          with Some True eq res show ?thesis by simp
        next
          case (Inr q)
          show ?thesis
          proof (cases q)
            case (Progress c b1)
            with Inr Some True eq
            have rec: "solve_loop debug steps c b1 = Some res" by simp
            have "c = completeness b1"
              using solve_pass_Progress Some Inr Progress by blast
            with IH [OF rec] res show ?thesis by blast
          next
            case (NoProgress b1)
            have e: "completeness b1 = compl"
              using solve_pass_NoProgress Some Inr NoProgress inv by blast
            with NoProgress Inr Some True eq res
            have "solve_finish False b1 = Some (Inr (r, b'))" by simp
            from solve_finish_result [OF this] e True show ?thesis
              by (auto simp: completeness_clear_removed)
          qed
        qed
      qed
    qed
  qed
qed

lemma solve_result:
  assumes "solve debug steps b = Some (Inr (r, b'))"
  shows "(r \<longleftrightarrow> completeness b' = 729) \<and> valid (cells b') = Inr ()"
  using solve_loop_result_aux [of debug steps "completeness b" b "Inr (r, b')"] assms
  by (simp add: solve_def)

lemma solve_complete_at_entry:
  assumes "completeness b = 729"
  shows "solve debug steps b =
           (case valid (cells (clear_removed b)) of Inl e \<Rightarrow> Some (Inl e)
            | Inr u \<Rightarrow> Some (Inr (True, clear_removed b)))"
  using assms by (simp add: solve_def solve_loop.simps solve_finish_def)

lemma solve_stall:
  assumes "completeness b \<noteq> 729"
    and "solve_pass debug steps (completeness b) b = Some (Inr (NoProgress b'))"
  shows "solve debug steps b =
           (case valid (cells (clear_removed b')) of Inl e \<Rightarrow> Some (Inl e)
            | Inr u \<Rightarrow> Some (Inr (False, clear_removed b')))"
proof -
  have "completeness b' = completeness b"
    using solve_pass_NoProgress [OF assms(2)] by simp
  with assms show ?thesis
    by (simp add: solve_def solve_loop.simps [of debug steps "completeness b" b] solve_finish_def)
qed

lemma pass_without_progress_solve_pass:
  "pass_without_progress steps b b' \<Longrightarrow>
   solve_pass debug steps (completeness b) b = Some (Inr (NoProgress b'))"
proof (induction steps arbitrary: b)
  case Nil
  then show ?case by simp
next
  case (Cons s steps)
  then obtain b1 where s: "s b = Some (Inr (False, b1))"
    and c: "completeness b1 = completeness b"
    and p: "pass_without_progress steps b1 b'"
    by auto
  have "solve_pass debug steps (completeness b1) b1 = Some (Inr (NoProgress b'))"
    using Cons.IH [OF p] .
  with s c show ?case by simp
qed

lemma case_sum_Inr_obtain:
  "(case m of Inl e \<Rightarrow> False | Inr x \<Rightarrow> P x) \<Longrightarrow> \<exists>x. m = Inr x \<and> P x"
  by (cases m) auto

lemma case_technique_obtain:
  "(case r of Some (Inr hb) \<Rightarrow> P hb | _ \<Rightarrow> False) \<Longrightarrow> \<exists>hb. r = Some (Inr hb) \<and> P hb"
  by (auto split: option.splits sum.splits)

text \<open>
  Claim C1, as the specification states it, fails on a board that is complete and not
  valid. The board \<open>[['1', '1']]\<close> has two given cells with the digit 1 in row \<open>A\<close>
  and black cells elsewhere: its completeness is 729, and \<open>solve\<close> does not return
  \<open>True\<close>, it raises \<open>InvalidSolution\<close> from the validity check that stands before
  \<open>return True\<close>. No technique is called on this board, so the list of the techniques
  does not matter.
\<close>

theorem solve_complete_invalid_counterexample:
  "completeness_of (Board [[''1'', ''1'']] 4) = Inr 729
   \<and> outcome (solve_board False [] (Board [[''1'', ''1'']] 4))
       = Some (Inl (InvalidSolution CHR ''2'' CHR ''A'' CHR ''1''))
   \<and> outcome (solve_board False [total_technique compartment_range_check_by_row]
                 (Board [[''1'', ''1'']] 4))
       = Some (Inl (InvalidSolution CHR ''2'' CHR ''A'' CHR ''1''))"
  by code_simp

text \<open>
  Claim C1, amended. For every board and list of techniques:
  when \<open>solve\<close> returns a value, the value is \<open>True\<close> exactly when the completeness of
  the board it leaves is 729, and that board has passed the validity check;
  when the loop is at completeness 729, \<open>solve\<close> returns \<open>True\<close> if the validity check
  passes and raises the error of the check otherwise;
  when the completeness is not 729 and one full pass over the list gives no hit and no
  change of the completeness, \<open>solve\<close> returns \<open>False\<close> if the validity check passes
  and raises its error otherwise. The board it leaves is the board after that pass; only
  the sets \<open>removed\<close>, kept for the display, are cleared.
\<close>

theorem solve_true_iff_complete_and_stall:
  "(solve debug steps b = Some (Inr (r, b')) \<longrightarrow>
      (r \<longleftrightarrow> completeness b' = 729) \<and> valid (cells b') = Inr ())
   \<and> solve_loop debug steps 729 b
       = (case valid (cells (clear_removed b)) of Inl e \<Rightarrow> Some (Inl e)
          | Inr u \<Rightarrow> Some (Inr (True, clear_removed b)))
   \<and> (completeness b = 729 \<longrightarrow>
        solve debug steps b
          = (case valid (cells (clear_removed b)) of Inl e \<Rightarrow> Some (Inl e)
             | Inr u \<Rightarrow> Some (Inr (True, clear_removed b))))
   \<and> (completeness b \<noteq> 729 \<and> pass_without_progress steps b b1 \<longrightarrow>
        solve debug steps b
          = (case valid (cells (clear_removed b1)) of Inl e \<Rightarrow> Some (Inl e)
             | Inr u \<Rightarrow> Some (Inr (False, clear_removed b1))))
   \<and> clear_removed b1 = b1\<lparr>cells := (\<lambda>p. (cells b1 p)\<lparr>removed := {}\<rparr>)\<rparr>"
proof -
  have 1: "solve debug steps b = Some (Inr (r, b')) \<longrightarrow>
      (r \<longleftrightarrow> completeness b' = 729) \<and> valid (cells b') = Inr ()"
    using solve_result [of debug steps b r b'] by blast
  have 2: "solve_loop debug steps 729 b
       = (case valid (cells (clear_removed b)) of Inl e \<Rightarrow> Some (Inl e)
          | Inr u \<Rightarrow> Some (Inr (True, clear_removed b)))"
    by (simp add: solve_loop.simps [of debug steps 729 b] solve_finish_def)
  have 3: "completeness b = 729 \<longrightarrow>
        solve debug steps b
          = (case valid (cells (clear_removed b)) of Inl e \<Rightarrow> Some (Inl e)
             | Inr u \<Rightarrow> Some (Inr (True, clear_removed b)))"
    using solve_complete_at_entry [of b debug steps] by blast
  have 4: "completeness b \<noteq> 729 \<and> pass_without_progress steps b b1 \<longrightarrow>
        solve debug steps b
          = (case valid (cells (clear_removed b1)) of Inl e \<Rightarrow> Some (Inl e)
             | Inr u \<Rightarrow> Some (Inr (False, clear_removed b1)))"
    using solve_stall [of b debug steps b1] pass_without_progress_solve_pass [of steps b b1 debug]
    by blast
  from 1 2 3 4 show ?thesis by (simp add: clear_removed_def)
qed

theorem solve_true_iff_complete_and_stall_witness:
  "\<exists>b b1. Board [[''12'']] 4 = Inr b \<and> completeness b \<noteq> 729
     \<and> pass_without_progress [total_technique compartment_range_check_by_row] b b1
     \<and> solve False [total_technique compartment_range_check_by_row] b
         = Some (Inr (False, clear_removed b1))"
proof -
  let ?steps = "[total_technique compartment_range_check_by_row]"
  have "case Board [[''12'']] 4 of Inl e \<Rightarrow> False
        | Inr b \<Rightarrow> (case total_technique compartment_range_check_by_row b of
             Some (Inr hb) \<Rightarrow> \<not> fst hb \<and> completeness (snd hb) = completeness b
                \<and> completeness b \<noteq> 729 \<and> valid (cells (clear_removed (snd hb))) = Inr ()
           | _ \<Rightarrow> False)"
    by code_simp
  from case_sum_Inr_obtain [OF this] obtain b where b: "Board [[''12'']] 4 = Inr b"
    and "case total_technique compartment_range_check_by_row b of
             Some (Inr hb) \<Rightarrow> \<not> fst hb \<and> completeness (snd hb) = completeness b
                \<and> completeness b \<noteq> 729 \<and> valid (cells (clear_removed (snd hb))) = Inr ()
           | _ \<Rightarrow> False"
    by blast
  from case_technique_obtain [OF this(2)] obtain hb
    where t0: "total_technique compartment_range_check_by_row b = Some (Inr hb)"
    and h: "\<not> fst hb"
    and c0: "completeness (snd hb) = completeness b" "completeness b \<noteq> 729"
    and v0: "valid (cells (clear_removed (snd hb))) = Inr ()"
    by blast
  define b1 where "b1 = snd hb"
  have t: "total_technique compartment_range_check_by_row b = Some (Inr (False, b1))"
    using t0 h by (cases hb) (simp add: b1_def)
  have c: "completeness b1 = completeness b" "completeness b \<noteq> 729"
    using c0 by (simp_all add: b1_def)
  have v: "valid (cells (clear_removed b1)) = Inr ()"
    using v0 by (simp add: b1_def)
  have p: "pass_without_progress ?steps b b1" using t c by simp
  have "solve False ?steps b = Some (Inr (False, clear_removed b1))"
    using solve_true_iff_complete_and_stall [of False ?steps b False b b1] c p v by simp
  with b c p show ?thesis by blast
qed

section \<open>Properties of the contradiction search\<close>

lemma chain_trials_no_exception: "chain_trials steps self ts \<noteq> Some (Inl e)"
  by (induction ts) (auto split: option.splits sum.splits bool.splits)

lemma chain_outcome_Cons: "chain_outcome steps self ts b' \<Longrightarrow> chain_outcome steps self (t # ts) b'"
  by (auto simp: chain_outcome_def)

lemma chain_trials_cases:
  assumes "chain_trials steps self ts = Some (Inr (h, b'))"
  shows "\<not> h \<and> chain_outcome steps self ts b'"
  using assms
proof (induction ts)
  case Nil
  then show ?case by (simp add: chain_outcome_def)
next
  case (Cons t ts)
  obtain p d where t: "t = (p, d)" by (cases t)
  show ?case
  proof (cases "contradiction_trial steps self p d")
    case None
    with Cons.prems t show ?thesis by simp
  next
    case (Some r)
    show ?thesis
    proof (cases r)
      case (Inl e)
      with Some Cons.prems t have "\<not> h" and "b' = contradiction_found self (fst t) (snd t)"
        by simp_all
      then show ?thesis by (simp add: chain_outcome_def)
    next
      case (Inr ok)
      show ?thesis
      proof (cases ok)
        case True
        show ?thesis
        proof (cases "cell_value_is p d (cells self)")
          case (Inl e)
          with True Inr Some Cons.prems t
          have "\<not> h" and "b' = contradiction_found self (fst t) (snd t)" by simp_all
          then show ?thesis by (simp add: chain_outcome_def)
        next
          case (Inr s)
          with True \<open>r = Inr ok\<close> Some Cons.prems t
          have "\<not> h" and "b' = self\<lparr>cells := s\<rparr>" by simp_all
          moreover have "cell_value_is (fst t) (snd t) (cells self) = Inr s"
            and "contradiction_trial steps self (fst t) (snd t) = Some (Inr True)"
            using Inr True \<open>r = Inr ok\<close> Some t by simp_all
          ultimately show ?thesis unfolding chain_outcome_def by simp
        qed
      next
        case False
        with Inr Some Cons.prems t have "chain_trials steps self ts = Some (Inr (h, b'))"
          by simp
        from Cons.IH [OF this] show ?thesis by (simp add: chain_outcome_Cons)
      qed
    qed
  qed
qed

lemma chain_trials_contradiction:
  assumes "\<forall>t\<in>set pre. contradiction_trial steps self (fst t) (snd t) = Some (Inr False)"
    and "contradiction_trial steps self p d = Some (Inl e)"
  shows "chain_trials steps self (pre @ (p, d) # post)
           = Some (Inr (False, contradiction_found self p d))"
  using assms by (induction pre) auto

lemma chain_trials_stall:
  assumes "\<forall>t\<in>set ts. contradiction_trial steps self (fst t) (snd t) = Some (Inr False)"
  shows "chain_trials steps self ts = Some (Inr (False, self))"
  using assms by (induction ts) auto

lemma contradiction_found_cells:
  "cells (contradiction_found self p d) q
     = (if q = p then can_not_be (cells self p) [d] else cells self q)"
  by (simp add: contradiction_found_def cell_can_not_be_def)

lemma cell_value_is_cells:
  "cell_value_is p d s = Inr s' \<Longrightarrow> q \<noteq> p \<Longrightarrow> s' q = s q"
  by (auto simp: cell_value_is_def split: sum.splits)

lemma contradiction_found_digits:
  assumes "is_unknown (cells self p)" and "distinct (digits (cells self p))"
  shows "set (digits (cells (contradiction_found self p d) p)) = set (digits (cells self p)) - {d}"
  using can_not_be_unknown_digits [OF assms, of "[d]"] by (simp add: contradiction_found_cells)

text \<open>
  Claim C2. For every list of techniques that is replayed, every order of the cells and
  every board: the search never raises, whatever the replays raise; when it
  returns, it reports no hit and the board is the board it was given, or that board with
  \<open>can_not_be\<close> of one trial digit applied to its cell, or that board with one trial
  digit set in its cell; when the trials before the trial of \<open>d\<close> at \<open>p\<close> all stall
  and the replay of that trial raises, the result is the board with \<open>can_not_be\<close> of
  \<open>d\<close> applied to the cell at \<open>p\<close> and nothing else changed, and \<open>d\<close> is no longer a
  candidate of that cell (the cell is white and not known, its candidates have no
  repeats); when all trials stall, the board is unchanged.
\<close>

theorem chain_contradiction_isolated:
  "chain_contradiction items steps self \<noteq> Some (Inl e)
   \<and> (chain_contradiction items steps self = Some (Inr (h, b')) \<longrightarrow>
        \<not> h \<and> chain_outcome steps self (contradiction_candidates items self) b')
   \<and> (contradiction_candidates items self = pre @ (p, d) # post
        \<and> (\<forall>t\<in>set pre. contradiction_trial steps self (fst t) (snd t) = Some (Inr False))
        \<and> contradiction_trial steps self p d = Some (Inl e') \<longrightarrow>
        chain_contradiction items steps self = Some (Inr (False, contradiction_found self p d)))
   \<and> contradiction_found self p d
        = self\<lparr>cells := (cells self)(p := can_not_be (cells self p) [d])\<rparr>
   \<and> (is_unknown (cells self p) \<and> distinct (digits (cells self p)) \<longrightarrow>
        set (digits (cells (contradiction_found self p d) p)) = set (digits (cells self p)) - {d})
   \<and> ((\<forall>t\<in>set (contradiction_candidates items self).
          contradiction_trial steps self (fst t) (snd t) = Some (Inr False)) \<longrightarrow>
        chain_contradiction items steps self = Some (Inr (False, self)))"
proof -
  have 1: "chain_contradiction items steps self \<noteq> Some (Inl e)"
    by (simp add: chain_contradiction_def chain_trials_no_exception)
  have 2: "chain_contradiction items steps self = Some (Inr (h, b')) \<longrightarrow>
        \<not> h \<and> chain_outcome steps self (contradiction_candidates items self) b'"
    unfolding chain_contradiction_def
    using chain_trials_cases [of steps self "contradiction_candidates items self" h b']
    by blast
  have 3: "contradiction_candidates items self = pre @ (p, d) # post
        \<and> (\<forall>t\<in>set pre. contradiction_trial steps self (fst t) (snd t) = Some (Inr False))
        \<and> contradiction_trial steps self p d = Some (Inl e') \<longrightarrow>
        chain_contradiction items steps self = Some (Inr (False, contradiction_found self p d))"
    using chain_trials_contradiction [of pre steps self p d e' post]
    by (simp add: chain_contradiction_def)
  have 4: "contradiction_found self p d
        = self\<lparr>cells := (cells self)(p := can_not_be (cells self p) [d])\<rparr>"
    by (simp add: contradiction_found_def cell_can_not_be_def)
  have 5: "is_unknown (cells self p) \<and> distinct (digits (cells self p)) \<longrightarrow>
        set (digits (cells (contradiction_found self p d) p)) = set (digits (cells self p)) - {d}"
    using contradiction_found_digits [of self p d] by blast
  have 6: "(\<forall>t\<in>set (contradiction_candidates items self).
          contradiction_trial steps self (fst t) (snd t) = Some (Inr False)) \<longrightarrow>
        chain_contradiction items steps self = Some (Inr (False, self))"
    using chain_trials_stall [of "contradiction_candidates items self" steps self]
    by (simp add: chain_contradiction_def)
  from 1 2 3 4 5 6 show ?thesis by blast
qed

theorem chain_contradiction_isolated_witness:
  "\<exists>b. Board [[''12'', ''1'']] 4 = Inr b
     \<and> digits (cells b (CHR ''1'', CHR ''A'')) = ''12''
     \<and> contradiction_trial [total_technique compartment_range_check_by_row] b
          (CHR ''1'', CHR ''A'') CHR ''1''
         = Some (Inl (InvalidSolution CHR ''2'' CHR ''A'' CHR ''1''))
     \<and> chain_contradiction all_positions [total_technique compartment_range_check_by_row] b
         = Some (Inr (False, contradiction_found b (CHR ''1'', CHR ''A'') CHR ''1''))
     \<and> set (digits (cells (contradiction_found b (CHR ''1'', CHR ''A'') CHR ''1'')
                       (CHR ''1'', CHR ''A''))) = {CHR ''2''}"
proof -
  let ?steps = "[total_technique compartment_range_check_by_row]"
  let ?p = "(CHR ''1'', CHR ''A'')"
  have "case Board [[''12'', ''1'']] 4 of Inl e \<Rightarrow> False
        | Inr b \<Rightarrow> digits (cells b ?p) = ''12'' \<and> is_unknown (cells b ?p)
            \<and> contradiction_candidates all_positions b = [(?p, CHR ''1''), (?p, CHR ''2'')]
            \<and> contradiction_trial ?steps b ?p CHR ''1''
                = Some (Inl (InvalidSolution CHR ''2'' CHR ''A'' CHR ''1''))"
    by code_simp
  from case_sum_Inr_obtain [OF this] obtain b where b: "Board [[''12'', ''1'']] 4 = Inr b"
    and d: "digits (cells b ?p) = ''12''" and u: "is_unknown (cells b ?p)"
    and c: "contradiction_candidates all_positions b = [] @ (?p, CHR ''1'') # [(?p, CHR ''2'')]"
    and t: "contradiction_trial ?steps b ?p CHR ''1''
                = Some (Inl (InvalidSolution CHR ''2'' CHR ''A'' CHR ''1''))"
    by auto
  have pre: "\<forall>t\<in>set []. contradiction_trial ?steps b (fst t) (snd t) = Some (Inr False)"
    by simp
  note th = chain_contradiction_isolated [of all_positions ?steps b AssertionError False b
      "[]" ?p "CHR ''1''" "[(?p, CHR ''2'')]" "InvalidSolution CHR ''2'' CHR ''A'' CHR ''1''"]
  have r: "chain_contradiction all_positions ?steps b
         = Some (Inr (False, contradiction_found b ?p CHR ''1''))"
    using th c t pre by blast
  have "distinct (digits (cells b ?p))" by (simp add: d)
  with th u d
  have "set (digits (cells (contradiction_found b ?p CHR ''1'') ?p)) = set ''12'' - {CHR ''1''}"
    by metis
  then have "set (digits (cells (contradiction_found b ?p CHR ''1'') ?p)) = {CHR ''2''}"
    by auto
  with b d t r show ?thesis by blast
qed

end
